theory Spec2Isabelle
  imports Main "HOL-Library.Sublist"
begin

section \<open>The story generator's controller (src/index.tsx)\<close>

text \<open>
  The component \<^verbatim>\<open>App\<close> keeps seven pieces of React state and one ref. Its handlers
  are modelled as functions on a record of that state. What the handlers do to the two
  outside services (the text-generation client and the browser's speech engine) is kept
  as logs in the same record, in call order, so that "how many requests were issued" and
  "which values were published" are questions about the final record.

  A JavaScript string is a sequence of UTF-16 code units. Strings are \<open>char list\<close>s
  here, and a \<open>char\<close> stands for the code unit of the same number, U+0000 to U+00FF
  (ASCII and the Latin-1 supplement). Text with code units above U+00FF has no
  counterpart in the model.
\<close>

subsection \<open>State\<close>

record request =
  model :: string
  contents :: string
  systemInstruction :: string

record app =
  name :: string
  age :: int
  interests :: string
  story :: string
  isLoading :: bool
  isReading :: bool
  error :: "string option"
  utteranceRef :: "string option"
  requests :: "request list"
  storyUpdates :: "string list"
  consoleErrors :: nat
  utterances :: "string list"
  cancels :: nat

text \<open>
  \<open>requests\<close>: every call of \<^verbatim>\<open>ai.models.generateContentStream\<close>;
  \<open>storyUpdates\<close>: every value handed to \<^verbatim>\<open>setStory\<close>;
  \<open>consoleErrors\<close>: the calls of \<^verbatim>\<open>console.error\<close>;
  \<open>utterances\<close>: the text of every utterance handed to \<^verbatim>\<open>speechSynthesis.speak\<close>;
  \<open>cancels\<close>: the calls of \<^verbatim>\<open>speechSynthesis.cancel\<close>.
  An utterance is identified by its text, so \<open>utteranceRef\<close> holds a string or null.
\<close>

definition setError :: "string option \<Rightarrow> app \<Rightarrow> app" where
  "setError m w = w\<lparr>error := m\<rparr>"

definition setIsLoading :: "bool \<Rightarrow> app \<Rightarrow> app" where
  "setIsLoading b w = w\<lparr>isLoading := b\<rparr>"

definition setIsReading :: "bool \<Rightarrow> app \<Rightarrow> app" where
  "setIsReading b w = w\<lparr>isReading := b\<rparr>"

definition setStory :: "string \<Rightarrow> app \<Rightarrow> app" where
  "setStory s w = w\<lparr>story := s, storyUpdates := storyUpdates w @ [s]\<rparr>"

text \<open>The state at mount: the initial values given to \<^verbatim>\<open>useState\<close> and \<^verbatim>\<open>useRef\<close>, nothing logged.\<close>

definition initialState :: app where
  "initialState =
     \<lparr>name = [], age = 5, interests = [], story = [], isLoading = False, isReading = False,
      error = None, utteranceRef = None, requests = [], storyUpdates = [],
      consoleErrors = 0, utterances = [], cancels = 0\<rparr>"

subsection \<open>The read-aloud handlers\<close>

definition speechErrorMessage :: string where
  "speechErrorMessage = ''Sorry, an error occurred with the text-to-speech service.''"

text \<open>\<^verbatim>\<open>handleReadAloud\<close>: a JavaScript string is falsy exactly when it is empty.\<close>

definition handleReadAloud :: "app \<Rightarrow> app" where
  "handleReadAloud w =
     (if isReading w \<or> story w = [] then w
      else setIsReading True
             (w\<lparr>utteranceRef := Some (story w),
                utterances := utterances w @ [story w]\<rparr>))"

text \<open>The two callbacks that \<^verbatim>\<open>handleReadAloud\<close> registers on the utterance.\<close>

definition utterance_onend :: "app \<Rightarrow> app" where
  "utterance_onend w = (setIsReading False w)\<lparr>utteranceRef := None\<rparr>"

definition utterance_onerror :: "app \<Rightarrow> app" where
  "utterance_onerror w = setIsReading False (setError (Some speechErrorMessage) w)"

text \<open>
  \<^verbatim>\<open>handleStopReading\<close>: the first argument is what the engine answers to
  \<^verbatim>\<open>window.speechSynthesis.speaking\<close> at the moment of the call.
\<close>

definition handleStopReading :: "bool \<Rightarrow> app \<Rightarrow> app" where
  "handleStopReading speaking w =
     (if speaking
      then (setIsReading False (w\<lparr>cancels := Suc (cancels w)\<rparr>))\<lparr>utteranceRef := None\<rparr>
      else w)"

text \<open>The spec's \<open>SpeechState\<close>, read off the flag \<open>isReading\<close>.\<close>

datatype SpeechState = NotReading | Reading

definition speechState :: "app \<Rightarrow> SpeechState" where
  "speechState w = (if isReading w then Reading else NotReading)"

subsection \<open>The generation handler\<close>

definition validationMessage :: string where
  "validationMessage = ''Please fill in the child's name and interests.''"

definition generationErrorMessage :: string where
  "generationErrorMessage =
     ''Sorry, something went wrong while creating the story. Please try again.''"

definition systemInstructionText :: string where
  "systemInstructionText =
     ''You are a whimsical and creative storyteller for young children. '' @
     ''Your stories are always positive, encouraging, and filled with wonder. '' @
     ''They should be easy for a child to understand and should gently weave in '' @
     ''a positive message about friendship, courage, or curiosity.''"

text \<open>
  \<^verbatim>\<open>${age}\<close> in the template literal is \<^verbatim>\<open>Number.prototype.toString\<close>. The age is an
  integer (the initial 5, or \<^verbatim>\<open>Number\<close> of one of the options 3 to 10), printed in
  decimal, with a minus sign when negative.
\<close>

definition digit_char :: "nat \<Rightarrow> char" where
  "digit_char d = char_of (48 + d)"

fun digits :: "nat \<Rightarrow> string" where
  "digits n = (if n < 10 then [digit_char n] else digits (n div 10) @ [digit_char (n mod 10)])"

declare digits.simps [simp del]

definition Number_toString :: "int \<Rightarrow> string" where
  "Number_toString i = (if i < 0 then CHR ''-'' # digits (nat (- i)) else digits (nat i))"

text \<open>
  Reading a decimal numeral, for comparison with the printer: the value of a run of
  digits, most significant first, negated behind a minus sign.
\<close>

definition digit_value :: "char \<Rightarrow> nat" where
  "digit_value c = of_char c - 48"

definition read_digits :: "string \<Rightarrow> nat" where
  "read_digits ds = foldl (\<lambda>a c. 10 * a + digit_value c) 0 ds"

definition read_decimal :: "string \<Rightarrow> int" where
  "read_decimal s =
     (case s of
        [] \<Rightarrow> 0
      | c # ds \<Rightarrow> if c = CHR ''-'' then - int (read_digits ds) else int (read_digits s))"

definition isDecimalDigit :: "char \<Rightarrow> bool" where
  "isDecimalDigit c \<longleftrightarrow> c \<in> set ''0123456789''"

definition prompt :: "app \<Rightarrow> string" where
  "prompt w =
     ''Create a short, magical story for '' @ name w @ '', who is '' @
     Number_toString (age w) @ '' years old and loves '' @ interests w @
     ''. Make sure '' @ name w @ '' is the hero of the story.''"

definition generateContentStream :: "request \<Rightarrow> app \<Rightarrow> app" where
  "generateContentStream r w = w\<lparr>requests := requests w @ [r]\<rparr>"

definition console_error :: "app \<Rightarrow> app" where
  "console_error w = w\<lparr>consoleErrors := Suc (consoleErrors w)\<rparr>"

text \<open>
  What the service delivers after the request: text chunks, in order, and possibly a
  failure. A rejected \<^verbatim>\<open>generateContentStream\<close> promise is a failure before the first
  chunk; both land in the same \<^verbatim>\<open>catch\<close>. Iteration ends at the first failure, so
  whatever the list holds after it is never looked at.
\<close>

datatype stream_event = Chunk string | Failure

text \<open>
  \<^verbatim>\<open>new GoogleGenAI(...)\<close> stands inside the \<^verbatim>\<open>try\<close> block, before the request. It
  either throws (the library refuses, for instance, to build a client without an API
  key) or gives a client; the client is known by the events its stream will deliver.
\<close>

datatype GoogleGenAI = ConstructorThrows | Client "stream_event list"

text \<open>
  The \<^verbatim>\<open>for await\<close> loop, with the local \<^verbatim>\<open>fullStory\<close> as accumulator. The boolean tells
  whether the loop ended by exhaustion (\<open>True\<close>) or by a thrown error (\<open>False\<close>).
\<close>

fun for_await :: "stream_event list \<Rightarrow> string \<Rightarrow> app \<Rightarrow> bool \<times> app" where
  "for_await [] fullStory w = (True, w)"
| "for_await (Failure # rest) fullStory w = (False, w)"
| "for_await (Chunk t # rest) fullStory w =
     for_await rest (fullStory @ t) (setStory (fullStory @ t) w)"

text \<open>
  \<^verbatim>\<open>handleGenerateStory\<close>. \<^verbatim>\<open>e.preventDefault()\<close> touches only the DOM event and is left
  out. The \<^verbatim>\<open>try\<close> block builds the client, issues the request and runs the loop; when
  building the client throws, no request is issued and control goes to \<^verbatim>\<open>catch\<close> at
  once. \<^verbatim>\<open>catch\<close> logs and sets the message; \<^verbatim>\<open>finally\<close> clears the loading flag on
  every path. The name, age and interests are those of the state the handler is called
  in.
\<close>

definition handleGenerateStory :: "GoogleGenAI \<Rightarrow> app \<Rightarrow> app" where
  "handleGenerateStory ai w =
     (if name w = [] \<or> interests w = [] then setError (Some validationMessage) w
      else
        let w1 = setStory [] (setIsLoading True (setError None w));
            (completed, w3) =
              (case ai of
                 ConstructorThrows \<Rightarrow> (False, w1)
               | Client events \<Rightarrow>
                   for_await events []
                     (generateContentStream
                        \<lparr>model = ''gemini-2.5-flash'', contents = prompt w,
                         systemInstruction = systemInstructionText\<rparr> w1));
            w4 = (if completed then w3
                  else setError (Some generationErrorMessage) (console_error w3))
        in setIsLoading False w4)"

text \<open>The spec's \<open>RequestState\<close>, read off the two fields \<open>isLoading\<close> and \<open>error\<close>.\<close>

datatype RequestState = Idle | Loading | Error string

definition requestState :: "app \<Rightarrow> RequestState" where
  "requestState w =
     (if isLoading w then Loading
      else case error w of None \<Rightarrow> Idle | Some m \<Rightarrow> Error m)"

text \<open>The chunks a stream delivers before it fails or ends.\<close>

fun received :: "stream_event list \<Rightarrow> string list" where
  "received [] = []"
| "received (Failure # rest) = []"
| "received (Chunk t # rest) = t # received rest"

fun fails :: "stream_event list \<Rightarrow> bool" where
  "fails [] = False"
| "fails (Failure # rest) = True"
| "fails (Chunk t # rest) = fails rest"

text \<open>A filled-in form, for the examples: the placeholder name and something she loves.\<close>

definition lilyState :: app where
  "lilyState = initialState\<lparr>name := ''Lily'', interests := ''dragons''\<rparr>"

definition lilyAtTen :: app where
  "lilyAtTen = lilyState\<lparr>age := 10\<rparr>"

definition onceUponATime :: "stream_event list" where
  "onceUponATime = [Chunk ''Once '', Chunk ''upon '', Chunk ''a time'']"

subsection \<open>The name highlighter\<close>

text \<open>
  \<^verbatim>\<open>String.prototype.trim\<close> strips white space and line terminators from both ends.
  Up to U+00FF these are TAB, LF, VT, FF, CR, the space and the no-break space U+00A0.
\<close>

definition isWhiteSpace :: "char \<Rightarrow> bool" where
  "isWhiteSpace c \<longleftrightarrow>
     c \<in> set [CHR 0x09, CHR 0x0A, CHR 0x0B, CHR 0x0C, CHR 0x0D, CHR '' '', CHR 0xA0]"

definition String_trim :: "string \<Rightarrow> string" where
  "String_trim s = rev (dropWhile isWhiteSpace (rev (dropWhile isWhiteSpace s)))"

text \<open>
  \<^verbatim>\<open>String.prototype.toLowerCase\<close>, one code unit at a time: the capital letters A to Z
  and U+00C0 to U+00DE, the multiplication sign U+00D7 apart, go 32 up; all else stays.
\<close>

definition isUpperCase :: "nat \<Rightarrow> bool" where
  "isUpperCase n \<longleftrightarrow> (65 \<le> n \<and> n \<le> 90) \<or> (192 \<le> n \<and> n \<le> 222 \<and> n \<noteq> 215)"

definition toLowerCase_char :: "char \<Rightarrow> char" where
  "toLowerCase_char c =
     (let n = (of_char c :: nat) in if isUpperCase n then char_of (n + 32) else c)"

definition toLowerCase :: "string \<Rightarrow> string" where
  "toLowerCase s = map toLowerCase_char s"

text \<open>
  Under the flag \<^verbatim>\<open>i\<close> (without \<^verbatim>\<open>u\<close>) two characters match when their
  canonical forms agree. The canonical form is the character's upper case when that is
  one code unit (and not an ASCII one for a character beyond ASCII), else the character
  itself. So the small letters a to z and U+00E0 to U+00FE, the division sign U+00F7
  apart, go 32 down, and the sharp s U+00DF (upper case "SS") stays. The micro sign
  U+00B5 and y with diaeresis U+00FF have their upper case above U+00FF, shared with no
  other character up to U+00FF; they stand for their own canonical form here, which
  leaves unchanged which characters of the range match which.
\<close>

definition isLowerCase :: "nat \<Rightarrow> bool" where
  "isLowerCase n \<longleftrightarrow> (97 \<le> n \<and> n \<le> 122) \<or> (224 \<le> n \<and> n \<le> 254 \<and> n \<noteq> 247)"

definition Canonicalize :: "char \<Rightarrow> char" where
  "Canonicalize c =
     (let n = (of_char c :: nat) in if isLowerCase n then char_of (n - 32) else c)"

text \<open>The syntax characters of a regular-expression pattern.\<close>

definition isSyntaxCharacter :: "char \<Rightarrow> bool" where
  "isSyntaxCharacter c \<longleftrightarrow> c \<in> set (CHR 0x5C # ''^$.*+?()[]{}|'')"

text \<open>
  \<^verbatim>\<open>new RegExp(pattern, flags)\<close>. Only one shape of pattern is modelled: a single
  capture group around a non-empty run of characters none of which is a syntax
  character, with the flags \<^verbatim>\<open>gi\<close>. That is the regular expression the highlighter
  builds from a name without metacharacters. For every other pattern the result is
  \<open>None\<close>: the constructor may throw there, or build an expression that is no literal,
  and neither is modelled.
\<close>

datatype regexp = CaptureLiteral string

definition RegExp :: "string \<Rightarrow> string \<Rightarrow> regexp option" where
  "RegExp pattern flags =
     (case pattern of
        [] \<Rightarrow> None
      | c # rest \<Rightarrow>
          if flags = ''gi'' \<and> c = CHR ''('' \<and> rest \<noteq> [] \<and> last rest = CHR '')''
             \<and> butlast rest \<noteq> [] \<and> \<not> list_ex isSyntaxCharacter (butlast rest)
          then Some (CaptureLiteral (butlast rest)) else None)"

text \<open>
  A sticky match of the literal at the head of the rest of the string: the next
  \<open>length lit\<close> characters agree with it up to case.
\<close>

definition matchAt :: "string \<Rightarrow> string \<Rightarrow> bool" where
  "matchAt lit s \<longleftrightarrow>
     length lit \<le> length s \<and> map Canonicalize (take (length lit) s) = map Canonicalize lit"

text \<open>
  The loop of \<^verbatim>\<open>RegExp.prototype[Symbol.split]\<close>. \<open>T\<close> is the text between the end \<open>p\<close>
  of the last match and the position \<open>q\<close> being tried, the third argument is the
  string from \<open>q\<close> on. A match at \<open>q\<close> is taken unless it ends at \<open>p\<close> (an empty match
  right after the last one); then \<open>T\<close> and the captured text are pushed. At the end of
  the string the remaining \<open>T\<close> is pushed.
\<close>

function split_loop :: "string \<Rightarrow> string \<Rightarrow> string \<Rightarrow> string list" where
  "split_loop lit T [] = [T]"
| "split_loop lit T (c # cs) =
     (if matchAt lit (c # cs) \<and> \<not> (lit = [] \<and> T = [])
      then T # take (length lit) (c # cs) #
           split_loop lit [] (drop (length lit) (c # cs))
      else split_loop lit (T @ [c]) cs)"
  by pat_completeness auto
termination
proof (relation "measure (\<lambda>(lit, T, s). 2 * length s + (if T = [] then 0 else 1))")
  fix lit T :: string and c :: char and cs :: string
  assume "matchAt lit (c # cs) \<and> \<not> (lit = [] \<and> T = [])"
  then have "lit \<noteq> [] \<or> T \<noteq> []" by blast
  then show "((lit, [], drop (length lit) (c # cs)), (lit, T, c # cs))
      \<in> measure (\<lambda>(lit, T, s). 2 * length s + (if T = [] then 0 else 1))"
    by (cases lit) auto
qed auto

fun String_split :: "string \<Rightarrow> regexp \<Rightarrow> string list" where
  "String_split S (CaptureLiteral lit) =
     (if S = [] then (if matchAt lit [] then [] else [S]) else split_loop lit [] S)"

text \<open>
  The highlighter returns React nodes: \<^verbatim>\<open>strong\<close> elements for the emphasised parts
  and fragments for the plain ones. In its first branch it returns the bare string,
  which renders as one plain text node and is written as one fragment here.
\<close>

datatype segment = Strong string | Fragment string

fun segment_text :: "segment \<Rightarrow> string" where
  "segment_text (Strong s) = s"
| "segment_text (Fragment s) = s"

text \<open>
  The arrow function handed to \<^verbatim>\<open>map\<close>, with the name it closes over as first
  argument. The index only serves as React key and is left out.
\<close>

definition part_node :: "string \<Rightarrow> string \<Rightarrow> segment" where
  "part_node nameToHighlight part =
     (if toLowerCase part = toLowerCase nameToHighlight then Strong part else Fragment part)"

definition highlightName :: "string \<Rightarrow> string \<Rightarrow> segment list option" where
  "highlightName text nameToHighlight =
     (if String_trim nameToHighlight = [] then Some [Fragment text]
      else
        case RegExp (''('' @ nameToHighlight @ '')'') ''gi'' of
          None \<Rightarrow> None
        | Some regex \<Rightarrow> Some (map (part_node nameToHighlight) (String_split text regex)))"

text \<open>
  The spec's reading of the highlighter, for comparison: find the leftmost place where
  the name occurs up to case, cut the text there into the plain part before it and the
  emphasised occurrence, and go on behind the occurrence.
\<close>

definition firstOccurrence :: "string \<Rightarrow> string \<Rightarrow> nat option" where
  "firstOccurrence nm s = find (\<lambda>i. matchAt nm (drop i s)) [0..<Suc (length s)]"

function greedySplit :: "string \<Rightarrow> string \<Rightarrow> segment list" where
  "greedySplit nm s =
     (if nm = [] then [Fragment s]
      else case firstOccurrence nm s of
             None \<Rightarrow> [Fragment s]
           | Some i \<Rightarrow>
               Fragment (take i s) # Strong (take (length nm) (drop i s)) #
               greedySplit nm (drop (i + length nm) s))"
  by pat_completeness auto
termination
proof (relation "measure (\<lambda>(nm, s). length s)")
  show "wf (measure (\<lambda>(nm, s). length s))" by simp
next
  fix nm s :: string and i :: nat
  assume nm: "nm \<noteq> []" and occ: "firstOccurrence nm s = Some i"
  from occ have "matchAt nm (drop i s)"
    by (auto simp: firstOccurrence_def find_Some_iff)
  then have "length nm \<le> length s - i"
    by (simp add: matchAt_def)
  with nm have "s \<noteq> []" by auto
  with nm show "((nm, drop (i + length nm) s), (nm, s)) \<in> measure (\<lambda>(nm, s). length s)"
    by simp
qed

declare greedySplit.simps [simp del]

declare String_split.simps [simp del]

section \<open>Read-aloud: properties\<close>

lemma handleReadAloud_idem:
  "handleReadAloud (handleReadAloud w) = handleReadAloud w"
  by (simp add: handleReadAloud_def setIsReading_def)

lemma handleReadAloud_funpow:
  "(handleReadAloud ^^ Suc n) w = handleReadAloud w"
  by (induction n) (simp_all add: handleReadAloud_idem)

lemma utterances_handleReadAloud:
  "utterances (handleReadAloud w) =
     (if isReading w \<or> story w = [] then utterances w else utterances w @ [story w])"
  by (simp add: handleReadAloud_def setIsReading_def)

text \<open>
  C8. \<^verbatim>\<open>handleReadAloud\<close> returns the state as it is when a reading is in progress or
  the story is empty: no utterance is built and nothing is set. Two calls in a row, with
  no callback of the engine in between, do what one call does; when the first call
  starts a reading, the two together hand exactly one utterance, the story, to the
  engine. Any number of calls in a row adds at most one utterance.
\<close>

theorem speak_suppressed_while_reading:
  "(isReading w \<or> story w = [] \<longrightarrow> handleReadAloud w = w) \<and>
   handleReadAloud (handleReadAloud w) = handleReadAloud w \<and>
   (\<not> isReading w \<and> story w \<noteq> [] \<longrightarrow>
      utterances (handleReadAloud (handleReadAloud w)) = utterances w @ [story w] \<and>
      speechState (handleReadAloud w) = Reading) \<and>
   length (utterances ((handleReadAloud ^^ n) w)) \<le> Suc (length (utterances w))"
proof -
  have noop: "isReading w \<or> story w = [] \<longrightarrow> handleReadAloud w = w"
    by (simp add: handleReadAloud_def)
  have once: "\<not> isReading w \<and> story w \<noteq> [] \<longrightarrow>
      utterances (handleReadAloud (handleReadAloud w)) = utterances w @ [story w] \<and>
      speechState (handleReadAloud w) = Reading"
    by (simp add: handleReadAloud_idem utterances_handleReadAloud)
       (simp add: handleReadAloud_def setIsReading_def speechState_def)
  have many: "length (utterances ((handleReadAloud ^^ n) w)) \<le> Suc (length (utterances w))"
  proof (cases n)
    case 0
    then show ?thesis by simp
  next
    case (Suc m)
    then have "(handleReadAloud ^^ n) w = handleReadAloud w"
      using handleReadAloud_funpow [of m w] by simp
    then show ?thesis by (simp add: utterances_handleReadAloud)
  qed
  from noop once many show ?thesis
    by (simp add: handleReadAloud_idem)
qed

theorem speak_suppressed_while_reading_witness:
  "isReading (initialState\<lparr>story := ''Once'', isReading := True\<rparr>) \<and>
   handleReadAloud (initialState\<lparr>story := ''Once'', isReading := True\<rparr>) =
     initialState\<lparr>story := ''Once'', isReading := True\<rparr> \<and>
   \<not> isReading (initialState\<lparr>story := ''Once''\<rparr>) \<and>
   story (initialState\<lparr>story := ''Once''\<rparr>) \<noteq> [] \<and>
   utterances (handleReadAloud (handleReadAloud (initialState\<lparr>story := ''Once''\<rparr>))) =
     [''Once'']"
proof -
  let ?r = "initialState\<lparr>story := ''Once'', isReading := True\<rparr>"
  let ?s = "initialState\<lparr>story := ''Once''\<rparr>"
  have r: "isReading ?r" by simp
  have s: "\<not> isReading ?s \<and> story ?s \<noteq> []" by (simp add: initialState_def)
  from r speak_suppressed_while_reading [of ?r 0] have "handleReadAloud ?r = ?r"
    by blast
  moreover from s speak_suppressed_while_reading [of ?s 0]
  have "utterances (handleReadAloud (handleReadAloud ?s)) = utterances ?s @ [story ?s]"
    by blast
  then have "utterances (handleReadAloud (handleReadAloud ?s)) = [''Once'']"
    by (simp add: initialState_def)
  ultimately show ?thesis using r s by blast
qed

text \<open>
  C7, as the claim states it, fails: with a reading in progress according to the
  component and an engine that reports no playback, \<^verbatim>\<open>handleStopReading\<close> leaves the
  component reading.
\<close>

theorem stop_leaves_reading_counterexample:
  "speechState (handleStopReading False (initialState\<lparr>story := ''Once'', isReading := True\<rparr>))
     = Reading"
  by (simp add: handleStopReading_def speechState_def initialState_def)

text \<open>
  C7, amended. When the engine reports a playback, \<^verbatim>\<open>handleStopReading\<close> cancels it
  (one call of \<^verbatim>\<open>cancel\<close>) and the speech state is \<open>NotReading\<close> afterwards. When the
  engine reports none, the handler changes nothing, the speech state included.
\<close>

theorem stop_cancels_when_engine_speaking:
  "cancels (handleStopReading True w) = Suc (cancels w) \<and>
   speechState (handleStopReading True w) = NotReading \<and>
   handleStopReading False w = w"
  by (simp add: handleStopReading_def speechState_def setIsReading_def)

section \<open>Generation: properties\<close>

lemma for_await_result:
  "for_await events acc w =
     (\<not> fails events,
      w\<lparr>story := (if received events = [] then story w else acc @ concat (received events)),
        storyUpdates := storyUpdates w @
          map (\<lambda>i. acc @ concat (take (Suc i) (received events)))
            [0..<length (received events)]\<rparr>)"
proof (induction events acc w rule: for_await.induct)
  case (1 fullStory w)
  then show ?case by simp
next
  case (2 rest fullStory w)
  then show ?case by simp
next
  case (3 t rest fullStory w)
  then show ?case
    by (simp add: setStory_def map_upt_Suc del: upt_Suc)
qed

text \<open>
  The whole effect of a submission that passes validation, field by field: with a
  client, and when building the client throws.
\<close>

lemma handleGenerateStory_Client:
  assumes "name w \<noteq> []" and "interests w \<noteq> []"
  shows "handleGenerateStory (Client events) w =
     w\<lparr>error := (if fails events then Some generationErrorMessage else None),
       isLoading := False,
       story := concat (received events),
       storyUpdates := storyUpdates w @
          map (\<lambda>i. concat (take i (received events))) [0..<Suc (length (received events))],
       requests := requests w @
          [\<lparr>model = ''gemini-2.5-flash'', contents = prompt w,
            systemInstruction = systemInstructionText\<rparr>],
       consoleErrors := (if fails events then Suc (consoleErrors w) else consoleErrors w)\<rparr>"
  using assms
  by (simp add: handleGenerateStory_def for_await_result setStory_def setIsLoading_def
      setError_def generateContentStream_def console_error_def map_upt_Suc Let_def
      del: upt_Suc)

lemma handleGenerateStory_ConstructorThrows:
  assumes "name w \<noteq> []" and "interests w \<noteq> []"
  shows "handleGenerateStory ConstructorThrows w =
     w\<lparr>error := Some generationErrorMessage,
       isLoading := False,
       story := [],
       storyUpdates := storyUpdates w @ [[]],
       consoleErrors := Suc (consoleErrors w)\<rparr>"
  using assms
  by (simp add: handleGenerateStory_def setStory_def setIsLoading_def setError_def
      console_error_def Let_def)

lemma handleGenerateStory_invalid:
  assumes "name w = [] \<or> interests w = []"
  shows "handleGenerateStory ai w = w\<lparr>error := Some validationMessage\<rparr>"
  using assms by (auto simp: handleGenerateStory_def setError_def)

lemma received_chunks [simp]: "received (map Chunk cs) = cs"
  by (induction cs) simp_all

lemma fails_chunks [simp]: "\<not> fails (map Chunk cs)"
  by (induction cs) simp_all

lemma received_chunks_Failure [simp]: "received (map Chunk cs @ Failure # rest) = cs"
  by (induction cs) simp_all

lemma fails_chunks_Failure [simp]: "fails (map Chunk cs @ Failure # rest)"
  by (induction cs) simp_all

lemma lilyState_valid: "name lilyState \<noteq> [] \<and> interests lilyState \<noteq> []"
  by (simp add: lilyState_def initialState_def)

lemma lilyAtTen_valid: "name lilyAtTen \<noteq> [] \<and> interests lilyAtTen \<noteq> []"
  by (simp add: lilyAtTen_def lilyState_def initialState_def)

lemma sublist_third: "sublist x (a @ b @ c @ x @ r)"
  using sublist_appendI [of x "a @ b @ c" r] by simp

lemma sublist_fifth: "sublist x (a @ b @ c @ d @ e @ x @ r)"
  using sublist_appendI [of x "a @ b @ c @ d @ e" r] by simp

lemma concat_take_prefix: "prefix (concat (take i cs)) (concat cs)"
proof -
  have "concat cs = concat (take i cs) @ concat (drop i cs)"
    by (metis append_take_drop_id concat_append)
  then show ?thesis by (simp add: prefix_def)
qed

lemma story_after_stream:
  "name w \<noteq> [] \<Longrightarrow> interests w \<noteq> [] \<Longrightarrow>
   story (handleGenerateStory (Client events) w) = concat (received events)"
  by (simp add: handleGenerateStory_Client)

lemma storyUpdates_after_stream:
  "name w \<noteq> [] \<Longrightarrow> interests w \<noteq> [] \<Longrightarrow>
   storyUpdates (handleGenerateStory (Client events) w) =
     storyUpdates w @
     map (\<lambda>i. concat (take i (received events))) [0..<Suc (length (received events))]"
  by (simp add: handleGenerateStory_Client)

lemma storyUpdates_nth:
  assumes "name w \<noteq> []" and "interests w \<noteq> []" and "i \<le> length (received events)"
  shows "storyUpdates (handleGenerateStory (Client events) w) ! (length (storyUpdates w) + i) =
         concat (take i (received events))"
proof -
  have "storyUpdates (handleGenerateStory (Client events) w) =
          storyUpdates w @
          map (\<lambda>i. concat (take i (received events))) [0..<Suc (length (received events))]"
    using assms(1,2) by (rule storyUpdates_after_stream)
  then show ?thesis
    using assms(3) by (simp add: nth_append del: upt_Suc)
qed

subsection \<open>The printed age\<close>

lemma digit_char_table: "\<forall>d\<in>set [0..<10]. digit_char d = ''0123456789'' ! d"
  by code_simp

lemma digit_char_nth: "d < 10 \<Longrightarrow> digit_char d = ''0123456789'' ! d"
  using digit_char_table by simp

lemma digit_value_table: "\<forall>d\<in>set [0..<10]. digit_value (''0123456789'' ! d) = d"
  by code_simp

lemma digit_value_digit_char: "d < 10 \<Longrightarrow> digit_value (digit_char d) = d"
  using digit_value_table by (simp add: digit_char_nth)

lemma isDecimalDigit_digit_char: "d < 10 \<Longrightarrow> isDecimalDigit (digit_char d)"
  unfolding isDecimalDigit_def
  by (simp only: digit_char_nth) (rule nth_mem, simp)

lemma read_digits_snoc: "read_digits (ds @ [c]) = 10 * read_digits ds + digit_value c"
  by (simp add: read_digits_def)

lemma read_digits_digits: "read_digits (digits n) = n"
proof (induction n rule: digits.induct)
  case (1 n)
  show ?case
  proof (cases "n < 10")
    case True
    then show ?thesis
      by (subst digits.simps) (simp add: read_digits_def digit_value_digit_char)
  next
    case False
    with "1.IH" have "read_digits (digits (n div 10)) = n div 10" by simp
    with False show ?thesis
      by (subst digits.simps) (simp add: read_digits_snoc digit_value_digit_char)
  qed
qed

lemma digits_all_decimal: "list_all isDecimalDigit (digits n)"
proof (induction n rule: digits.induct)
  case (1 n)
  show ?case
  proof (cases "n < 10")
    case True
    then show ?thesis
      by (subst digits.simps) (simp add: isDecimalDigit_digit_char)
  next
    case False
    with "1.IH" have "list_all isDecimalDigit (digits (n div 10))" by simp
    with False show ?thesis
      by (subst digits.simps) (simp add: isDecimalDigit_digit_char)
  qed
qed

lemma digits_nonempty: "digits n \<noteq> []"
  by (subst digits.simps) simp

lemma read_decimal_digits: "read_decimal (digits n) = int n"
proof (cases "digits n")
  case Nil
  then show ?thesis using digits_nonempty [of n] by simp
next
  case (Cons c ds)
  with digits_all_decimal [of n] have "isDecimalDigit c" by simp
  then have "c \<noteq> CHR ''-''" by (auto simp: isDecimalDigit_def)
  with Cons read_digits_digits [of n] show ?thesis
    by (simp add: read_decimal_def)
qed

text \<open>The printer is right: what it prints reads back as the number it was given.\<close>

lemma read_decimal_Number_toString: "read_decimal (Number_toString i) = i"
proof (cases "i < 0")
  case True
  then show ?thesis
    by (simp add: Number_toString_def read_decimal_def read_digits_digits)
next
  case False
  then show ?thesis
    by (simp add: Number_toString_def read_decimal_digits)
qed

lemma Number_toString_nonnegative:
  "0 \<le> i \<Longrightarrow> list_all isDecimalDigit (Number_toString i)"
  by (simp add: Number_toString_def digits_all_decimal)

lemma Number_toString_options:
  "map Number_toString [3, 4, 5, 6, 7, 8, 9] = map (\<lambda>c. [c]) ''3456789'' \<and>
   Number_toString 10 = ''10''"
  by code_simp

subsection \<open>The claims\<close>

text \<open>
  C1. In a request that passes validation, the values handed to \<^verbatim>\<open>setStory\<close> are, in
  order, the empty story and then, after the i-th chunk, the concatenation of the first
  i chunks received; each value is the one before it with the new chunk appended, and
  each is a prefix of the final story. When the stream is exhausted the story is the
  concatenation of all chunks; for the chunks "Once ", "upon ", "a time" it is
  "Once upon a time". When no client could be built there is no chunk, and the empty
  story is the only value.
\<close>

theorem story_updates_are_chunk_prefixes:
  assumes "name w \<noteq> []" and "interests w \<noteq> []"
  shows "storyUpdates (handleGenerateStory (Client events) w) =
           storyUpdates w @
           map (\<lambda>i. concat (take i (received events))) [0..<Suc (length (received events))] \<and>
         (\<forall>i<length (received events).
            storyUpdates (handleGenerateStory (Client events) w)
              ! (length (storyUpdates w) + Suc i) =
            storyUpdates (handleGenerateStory (Client events) w)
              ! (length (storyUpdates w) + i) @
            received events ! i) \<and>
         (\<forall>i\<le>length (received events).
            prefix (concat (take i (received events)))
              (story (handleGenerateStory (Client events) w))) \<and>
         story (handleGenerateStory (Client (map Chunk chunks)) w) = concat chunks \<and>
         story (handleGenerateStory (Client onceUponATime) w) = ''Once upon a time'' \<and>
         storyUpdates (handleGenerateStory ConstructorThrows w) = storyUpdates w @ [[]] \<and>
         story (handleGenerateStory ConstructorThrows w) = []"
proof -
  have step: "storyUpdates (handleGenerateStory (Client events) w)
        ! (length (storyUpdates w) + Suc i) =
      storyUpdates (handleGenerateStory (Client events) w) ! (length (storyUpdates w) + i) @
      received events ! i" if "i < length (received events)" for i
  proof -
    have "concat (take (Suc i) (received events)) =
          concat (take i (received events)) @ received events ! i"
      using that by (simp add: take_Suc_conv_app_nth)
    then show ?thesis
      using that assms storyUpdates_nth [of w i events] storyUpdates_nth [of w "Suc i" events]
      by simp
  qed
  have pre: "prefix (concat (take i (received events)))
      (story (handleGenerateStory (Client events) w))" for i
    using assms by (simp add: story_after_stream concat_take_prefix)
  have all: "story (handleGenerateStory (Client (map Chunk chunks)) w) = concat chunks"
    using assms by (simp add: story_after_stream)
  have once: "story (handleGenerateStory (Client onceUponATime) w) = ''Once upon a time''"
    using assms by (simp add: story_after_stream) (simp add: onceUponATime_def)
  have none: "storyUpdates (handleGenerateStory ConstructorThrows w) = storyUpdates w @ [[]]"
      "story (handleGenerateStory ConstructorThrows w) = []"
    using assms by (simp_all add: handleGenerateStory_ConstructorThrows)
  from storyUpdates_after_stream [OF assms] step pre all once none show ?thesis
    by blast
qed

theorem story_updates_are_chunk_prefixes_witness:
  "name lilyState \<noteq> [] \<and> interests lilyState \<noteq> [] \<and>
   storyUpdates (handleGenerateStory (Client onceUponATime) lilyState) =
     ['''', ''Once '', ''Once upon '', ''Once upon a time''] \<and>
   story (handleGenerateStory (Client onceUponATime) lilyState) = ''Once upon a time''"
proof -
  have v: "name lilyState \<noteq> []" "interests lilyState \<noteq> []"
    using lilyState_valid by simp_all
  have old: "storyUpdates lilyState = []"
    by (simp add: lilyState_def initialState_def)
  have rec: "received onceUponATime = [''Once '', ''upon '', ''a time'']"
    by (simp add: onceUponATime_def)
  from story_updates_are_chunk_prefixes [OF v, of onceUponATime "[]"]
  have "storyUpdates (handleGenerateStory (Client onceUponATime) lilyState) =
          storyUpdates lilyState @
          map (\<lambda>i. concat (take i (received onceUponATime)))
            [0..<Suc (length (received onceUponATime))]"
    and "story (handleGenerateStory (Client onceUponATime) lilyState) = ''Once upon a time''"
    by blast+
  then show ?thesis
    using v by (simp add: old rec upt_rec)
qed

text \<open>
  C2, as the claim states it, fails: a submission with an empty name moves the request
  state from \<open>Idle\<close> to \<open>Error\<close>, since the handler stores the validation message.
\<close>

theorem validation_sets_error_counterexample:
  "requestState initialState = Idle \<and>
   requestState (handleGenerateStory (Client []) initialState) = Error validationMessage"
  by (simp add: requestState_def handleGenerateStory_def setError_def initialState_def)

text \<open>
  C2, amended. A submission with an empty name or empty interests stores the validation
  message in \<open>error\<close> and does nothing else, whatever the service would have done: no
  request is issued, the loading flag keeps its value (the request state never becomes
  \<open>Loading\<close> by this call; unless a request was loading already it is \<open>Error\<close> with the
  validation message), and the story and the speech state are untouched.
\<close>

theorem validation_failure_only_sets_message:
  assumes "name w = [] \<or> interests w = []"
  shows "handleGenerateStory ai w = w\<lparr>error := Some validationMessage\<rparr> \<and>
         requests (handleGenerateStory ai w) = requests w \<and>
         isLoading (handleGenerateStory ai w) = isLoading w \<and>
         requestState (handleGenerateStory ai w) =
           (if isLoading w then Loading else Error validationMessage) \<and>
         story (handleGenerateStory ai w) = story w \<and>
         storyUpdates (handleGenerateStory ai w) = storyUpdates w \<and>
         speechState (handleGenerateStory ai w) = speechState w"
proof -
  from assms have "handleGenerateStory ai w = w\<lparr>error := Some validationMessage\<rparr>"
    by (rule handleGenerateStory_invalid)
  then show ?thesis
    by (simp add: requestState_def speechState_def)
qed

theorem validation_failure_only_sets_message_witness:
  "name initialState = [] \<and>
   requests (handleGenerateStory (Client onceUponATime) initialState) = [] \<and>
   error (handleGenerateStory (Client onceUponATime) initialState) = Some validationMessage \<and>
   \<not> isLoading (handleGenerateStory (Client onceUponATime) initialState)"
proof -
  have e: "name initialState = []" by (simp add: initialState_def)
  then have "name initialState = [] \<or> interests initialState = []" by blast
  from validation_failure_only_sets_message [OF this, of "Client onceUponATime"]
  have "handleGenerateStory (Client onceUponATime) initialState =
          initialState\<lparr>error := Some validationMessage\<rparr>"
    by blast
  then show ?thesis
    using e by (simp add: initialState_def)
qed

text \<open>
  C3, as the claim states it, fails: a request started while a reading is in progress
  leaves the speech state \<open>Reading\<close>; the handler never calls \<^verbatim>\<open>setIsReading\<close>.
\<close>

theorem generation_keeps_reading_counterexample:
  "speechState (lilyState\<lparr>isReading := True\<rparr>) = Reading \<and>
   speechState (handleGenerateStory (Client []) (lilyState\<lparr>isReading := True\<rparr>)) = Reading"
  by (simp add: handleGenerateStory_Client lilyState_def initialState_def speechState_def)

text \<open>
  C3, amended. Whenever a submission passes validation, the first value the handler
  gives to \<^verbatim>\<open>setStory\<close> is the empty story, before any chunk is appended (and a request
  that receives no chunk ends with the empty story). The speech state is not touched:
  it is after the request what it was before.
\<close>

theorem generation_clears_story_first:
  assumes "name w \<noteq> []" and "interests w \<noteq> []"
  shows "take (Suc (length (storyUpdates w))) (storyUpdates (handleGenerateStory ai w)) =
           storyUpdates w @ [[]] \<and>
         (received events = [] \<longrightarrow> story (handleGenerateStory (Client events) w) = []) \<and>
         story (handleGenerateStory ConstructorThrows w) = [] \<and>
         isReading (handleGenerateStory ai w) = isReading w \<and>
         speechState (handleGenerateStory ai w) = speechState w"
proof (cases ai)
  case ConstructorThrows
  with assms show ?thesis
    by (simp add: handleGenerateStory_ConstructorThrows handleGenerateStory_Client
        speechState_def)
next
  case (Client es)
  with assms show ?thesis
    by (simp add: handleGenerateStory_ConstructorThrows handleGenerateStory_Client
        speechState_def map_upt_Suc del: upt_Suc)
qed

theorem generation_clears_story_first_witness:
  "name (lilyState\<lparr>story := ''old''\<rparr>) \<noteq> [] \<and>
   interests (lilyState\<lparr>story := ''old''\<rparr>) \<noteq> [] \<and>
   received [Failure] = [] \<and>
   story (handleGenerateStory (Client [Failure]) (lilyState\<lparr>story := ''old''\<rparr>)) = [] \<and>
   take 1 (storyUpdates (handleGenerateStory (Client onceUponATime)
                           (lilyState\<lparr>story := ''old''\<rparr>))) = [[]]"
proof -
  let ?w = "lilyState\<lparr>story := ''old''\<rparr>"
  have v: "name ?w \<noteq> []" "interests ?w \<noteq> []"
    using lilyState_valid by simp_all
  have old: "storyUpdates ?w = []"
    by (simp add: lilyState_def initialState_def)
  have r: "received [Failure] = []" by simp
  from generation_clears_story_first [OF v, where events = "[Failure]"] r
  have "story (handleGenerateStory (Client [Failure]) ?w) = []" by blast
  moreover from generation_clears_story_first [OF v, where ai = "Client onceUponATime"]
  have "take (Suc (length (storyUpdates ?w)))
          (storyUpdates (handleGenerateStory (Client onceUponATime) ?w))
        = storyUpdates ?w @ [[]]"
    by blast
  then have "take 1 (storyUpdates (handleGenerateStory (Client onceUponATime) ?w)) = [[]]"
    by (simp add: old)
  ultimately show ?thesis using v r by blast
qed

text \<open>
  C4. In a request that passes validation: when the stream ends without a failure the
  request state is \<open>Idle\<close>; when it fails after the chunks \<open>cs\<close>, whatever would have
  followed, the request state is \<open>Error\<close> with the generation message, the story is the
  concatenation of \<open>cs\<close>, and the values given to \<^verbatim>\<open>setStory\<close> are the clearing and one
  value per chunk of \<open>cs\<close>, nothing after them. When building the client throws, the
  outcome is that of a failure before the first chunk.
\<close>

theorem stream_end_and_failure:
  assumes "name w \<noteq> []" and "interests w \<noteq> []"
  shows "requestState (handleGenerateStory (Client (map Chunk cs)) w) = Idle \<and>
         requestState (handleGenerateStory (Client (map Chunk cs @ Failure # rest)) w) =
           Error generationErrorMessage \<and>
         story (handleGenerateStory (Client (map Chunk cs @ Failure # rest)) w) = concat cs \<and>
         storyUpdates (handleGenerateStory (Client (map Chunk cs @ Failure # rest)) w) =
           storyUpdates w @ map (\<lambda>i. concat (take i cs)) [0..<Suc (length cs)] \<and>
         requestState (handleGenerateStory (Client events) w) =
           (if fails events then Error generationErrorMessage else Idle) \<and>
         requestState (handleGenerateStory ConstructorThrows w) =
           Error generationErrorMessage \<and>
         story (handleGenerateStory ConstructorThrows w) = [] \<and>
         storyUpdates (handleGenerateStory ConstructorThrows w) = storyUpdates w @ [[]]"
  using assms
  by (simp add: handleGenerateStory_Client handleGenerateStory_ConstructorThrows
      requestState_def del: upt_Suc)

theorem stream_end_and_failure_witness:
  "name lilyState \<noteq> [] \<and> interests lilyState \<noteq> [] \<and>
   requestState (handleGenerateStory (Client [Chunk ''Once '', Chunk ''upon '']) lilyState) =
     Idle \<and>
   requestState
     (handleGenerateStory (Client [Chunk ''Once '', Failure, Chunk ''upon '']) lilyState) =
     Error generationErrorMessage \<and>
   story (handleGenerateStory (Client [Chunk ''Once '', Failure, Chunk ''upon '']) lilyState) =
     ''Once '' \<and>
   storyUpdates
     (handleGenerateStory (Client [Chunk ''Once '', Failure, Chunk ''upon '']) lilyState) =
     ['''', ''Once '']"
proof -
  have v: "name lilyState \<noteq> []" "interests lilyState \<noteq> []"
    using lilyState_valid by simp_all
  have old: "storyUpdates lilyState = []"
    by (simp add: lilyState_def initialState_def)
  from stream_end_and_failure [where cs = "[''Once '', ''upon '']", OF v]
  have "requestState
          (handleGenerateStory (Client [Chunk ''Once '', Chunk ''upon '']) lilyState) = Idle"
    by simp
  moreover
  from stream_end_and_failure [where cs = "[''Once '']" and rest = "[Chunk ''upon '']", OF v]
  have "requestState
          (handleGenerateStory (Client [Chunk ''Once '', Failure, Chunk ''upon '']) lilyState) =
          Error generationErrorMessage \<and>
        story (handleGenerateStory (Client [Chunk ''Once '', Failure, Chunk ''upon ''])
                 lilyState) = ''Once '' \<and>
        storyUpdates (handleGenerateStory (Client [Chunk ''Once '', Failure, Chunk ''upon ''])
                        lilyState) = ['''', ''Once '']"
    by (simp add: old upt_rec)
  ultimately show ?thesis
    using v by blast
qed

text \<open>
  C5, as the claim states it, fails: with a name and interests filled in, a submission
  for which building the client throws issues no request at all.
\<close>

theorem no_request_without_client_counterexample:
  "name lilyState \<noteq> [] \<and> interests lilyState \<noteq> [] \<and> requests lilyState = [] \<and>
   requests (handleGenerateStory ConstructorThrows lilyState) = []"
  by (simp add: handleGenerateStory_ConstructorThrows lilyState_valid)
     (simp add: lilyState_def initialState_def)

text \<open>
  C5, amended. A submission with a non-empty name and non-empty interests issues
  exactly one request when the client is built, whatever the stream does afterwards, and
  none when building the client throws; the handler then reports the generation error.
  The contents of the request are the prompt. The prompt contains the name, the age and
  the interests, each as a contiguous piece, the age between ", who is " and
  " years old". The age stands there in decimal: what is printed reads back as the age,
  it is made of digits only when the age is not negative, and the ages the form offers
  print as "3" to "10".
\<close>

theorem one_request_when_client_built:
  assumes "name w \<noteq> []" and "interests w \<noteq> []"
  shows "requests (handleGenerateStory (Client events) w) =
           requests w @ [\<lparr>model = ''gemini-2.5-flash'', contents = prompt w,
                          systemInstruction = systemInstructionText\<rparr>] \<and>
         length (requests (handleGenerateStory (Client events) w)) =
           Suc (length (requests w)) \<and>
         requests (handleGenerateStory ConstructorThrows w) = requests w \<and>
         requestState (handleGenerateStory ConstructorThrows w) =
           Error generationErrorMessage \<and>
         sublist (name w) (prompt w) \<and>
         sublist (Number_toString (age w)) (prompt w) \<and>
         sublist ('', who is '' @ Number_toString (age w) @ '' years old'') (prompt w) \<and>
         sublist (interests w) (prompt w) \<and>
         read_decimal (Number_toString (age w)) = age w \<and>
         (0 \<le> age w \<longrightarrow> list_all isDecimalDigit (Number_toString (age w))) \<and>
         map Number_toString [3, 4, 5, 6, 7, 8, 9] = map (\<lambda>c. [c]) ''3456789'' \<and>
         Number_toString 10 = ''10''"
proof -
  have n: "sublist (name w) (prompt w)"
    unfolding prompt_def by (rule sublist_appendI)
  have a: "sublist (Number_toString (age w)) (prompt w)"
    unfolding prompt_def by (rule sublist_third)
  have "prompt w =
      (''Create a short, magical story for '' @ name w) @
      ('', who is '' @ Number_toString (age w) @ '' years old'') @
      ('' and loves '' @ interests w @ ''. Make sure '' @ name w @
       '' is the hero of the story.'')"
    by (simp add: prompt_def)
  then have p: "sublist ('', who is '' @ Number_toString (age w) @ '' years old'') (prompt w)"
    by (simp only: sublist_appendI)
  have i: "sublist (interests w) (prompt w)"
    unfolding prompt_def by (rule sublist_fifth)
  have c: "requests (handleGenerateStory (Client events) w) =
           requests w @ [\<lparr>model = ''gemini-2.5-flash'', contents = prompt w,
                          systemInstruction = systemInstructionText\<rparr>]"
    using assms by (simp add: handleGenerateStory_Client)
  have t: "requests (handleGenerateStory ConstructorThrows w) = requests w"
      "requestState (handleGenerateStory ConstructorThrows w) = Error generationErrorMessage"
    using assms by (simp_all add: handleGenerateStory_ConstructorThrows requestState_def)
  from c have l: "length (requests (handleGenerateStory (Client events) w)) =
      Suc (length (requests w))"
    by simp
  from n a p i c l t read_decimal_Number_toString [of "age w"]
    Number_toString_nonnegative [of "age w"] Number_toString_options
  show ?thesis by blast
qed

theorem one_request_when_client_built_witness:
  "name lilyAtTen \<noteq> [] \<and> interests lilyAtTen \<noteq> [] \<and> 0 \<le> age lilyAtTen \<and>
   Number_toString (age lilyAtTen) = ''10'' \<and>
   read_decimal ''10'' = 10 \<and>
   map contents (requests (handleGenerateStory (Client onceUponATime) lilyAtTen)) =
     [''Create a short, magical story for Lily, who is 10 years old and loves dragons. '' @
      ''Make sure Lily is the hero of the story.'']"
proof -
  have v: "name lilyAtTen \<noteq> []" "interests lilyAtTen \<noteq> []"
    using lilyAtTen_valid by simp_all
  have old: "requests lilyAtTen = []" and ten: "age lilyAtTen = 10"
    by (simp_all add: lilyAtTen_def lilyState_def initialState_def)
  have p: "prompt lilyAtTen =
      ''Create a short, magical story for Lily, who is 10 years old and loves dragons. '' @
      ''Make sure Lily is the hero of the story.''"
    by code_simp
  have s: "Number_toString 10 = ''10''"
    by code_simp
  from one_request_when_client_built [OF v, of onceUponATime]
  have "requests (handleGenerateStory (Client onceUponATime) lilyAtTen) =
          requests lilyAtTen @ [\<lparr>model = ''gemini-2.5-flash'', contents = prompt lilyAtTen,
                                  systemInstruction = systemInstructionText\<rparr>]"
    and "read_decimal (Number_toString (age lilyAtTen)) = age lilyAtTen"
    by blast+
  then show ?thesis
    using v by (simp add: old p ten s)
qed

section \<open>Highlighter: properties\<close>

subsection \<open>Matching up to case\<close>

lemma toLowerCase_Canonicalize: "toLowerCase_char (Canonicalize c) = toLowerCase_char c"
proof (cases "isLowerCase (of_char c)")
  case True
  then have up: "isUpperCase (of_char c - 32)" and no: "\<not> isUpperCase (of_char c)"
    and ge: "(32::nat) \<le> of_char c"
    by (auto simp: isLowerCase_def isUpperCase_def)
  have "(of_char c :: nat) - 32 < 256"
    using nat_of_char_less_256 [of c] by arith
  then have m: "((of_char c :: nat) - 32) mod 256 = of_char c - 32"
    by (rule mod_less)
  from ge have "of_char c - 32 + 32 = (of_char c :: nat)" by simp
  with True up no m show ?thesis
    by (simp add: toLowerCase_char_def Canonicalize_def Let_def)
next
  case False
  then show ?thesis
    by (simp add: Canonicalize_def Let_def)
qed

lemma Canonicalize_toLowerCase: "Canonicalize (toLowerCase_char c) = Canonicalize c"
proof (cases "isUpperCase (of_char c)")
  case True
  then have lo: "isLowerCase (of_char c + 32)" and no: "\<not> isLowerCase (of_char c)"
    and lt: "of_char c + 32 < (256::nat)"
    by (auto simp: isLowerCase_def isUpperCase_def)
  with True show ?thesis
    by (simp add: toLowerCase_char_def Canonicalize_def Let_def)
next
  case False
  then show ?thesis
    by (simp add: toLowerCase_char_def Let_def)
qed

lemma Canonicalize_eq_iff:
  "Canonicalize a = Canonicalize b \<longleftrightarrow> toLowerCase_char a = toLowerCase_char b"
  by (metis toLowerCase_Canonicalize Canonicalize_toLowerCase)

lemma map_Canonicalize_eq_iff:
  "map Canonicalize xs = map Canonicalize ys \<longleftrightarrow> toLowerCase xs = toLowerCase ys"
  unfolding toLowerCase_def
proof (induction xs arbitrary: ys)
  case Nil
  then show ?case by simp
next
  case (Cons x xs)
  then show ?case by (cases ys) (simp_all add: Canonicalize_eq_iff)
qed

lemma toLowerCase_eq_length: "toLowerCase xs = toLowerCase ys \<Longrightarrow> length xs = length ys"
  unfolding toLowerCase_def by (rule map_eq_imp_length_eq)

lemma matchAt_iff:
  "matchAt lit s \<longleftrightarrow>
     length lit \<le> length s \<and> toLowerCase (take (length lit) s) = toLowerCase lit"
  by (simp add: matchAt_def map_Canonicalize_eq_iff)

subsection \<open>The constructor and the trimmed name\<close>

lemma String_trim_blank:
  assumes "list_all isWhiteSpace nm"
  shows "String_trim nm = []"
proof -
  from assms have "dropWhile isWhiteSpace nm = []"
    by (simp add: list_all_iff)
  then show ?thesis
    unfolding String_trim_def by (simp del: dropWhile_eq_Nil_conv)
qed

lemma String_trim_nonempty: "String_trim nm \<noteq> [] \<Longrightarrow> nm \<noteq> []"
  by (auto simp: String_trim_def)

lemma RegExp_literal:
  assumes "nm \<noteq> []" and "\<not> list_ex isSyntaxCharacter nm"
  shows "RegExp (''('' @ nm @ '')'') ''gi'' = Some (CaptureLiteral nm)"
  using assms by (simp add: RegExp_def butlast_append)

lemma highlightName_literal:
  assumes "String_trim nm \<noteq> []" and "\<not> list_ex isSyntaxCharacter nm"
  shows "highlightName text nm =
           Some (map (part_node nm) (String_split text (CaptureLiteral nm)))"
proof -
  from assms(1) have "nm \<noteq> []" by (rule String_trim_nonempty)
  then have r: "RegExp (''('' @ nm @ '')'') ''gi'' = Some (CaptureLiteral nm)"
    using assms(2) by (rule RegExp_literal)
  show ?thesis
    unfolding highlightName_def r using assms(1) by simp
qed

lemma segment_text_part_node: "segment_text (part_node nm part) = part"
  by (simp add: part_node_def)

subsection \<open>The split loop\<close>

lemma concat_split_loop: "concat (split_loop lit T s) = T @ s"
  by (induction lit T s rule: split_loop.induct) simp_all

lemma concat_String_split:
  "lit \<noteq> [] \<Longrightarrow> concat (String_split S (CaptureLiteral lit)) = S"
  by (simp add: String_split.simps concat_split_loop matchAt_def)

lemma find_map: "find P (map f xs) = map_option f (find (P \<circ> f) xs)"
  by (induction xs) simp_all

lemma firstOccurrence_Nil: "nm \<noteq> [] \<Longrightarrow> firstOccurrence nm [] = None"
  by (simp add: firstOccurrence_def matchAt_def)

lemma firstOccurrence_Cons:
  "firstOccurrence nm (c # cs) =
     (if matchAt nm (c # cs) then Some 0 else map_option Suc (firstOccurrence nm cs))"
proof -
  have "[0..<Suc (Suc (length cs))] = 0 # [Suc 0..<Suc (Suc (length cs))]"
    by (rule upt_conv_Cons) simp
  also have "[Suc 0..<Suc (Suc (length cs))] = map Suc [0..<Suc (length cs)]"
    by (rule map_Suc_upt [symmetric])
  finally have "[0..<Suc (Suc (length cs))] = 0 # map Suc [0..<Suc (length cs)]" .
  then show ?thesis
    by (simp add: firstOccurrence_def find_map comp_def del: upt_Suc)
qed

text \<open>
  One round of the loop, seen from outside: it runs up to the leftmost occurrence,
  pushes what it has passed and the occurrence, and starts again behind it.
\<close>

lemma split_loop_firstOccurrence:
  "nm \<noteq> [] \<Longrightarrow>
   split_loop nm T s =
     (case firstOccurrence nm s of
        None \<Rightarrow> [T @ s]
      | Some i \<Rightarrow> (T @ take i s) # take (length nm) (drop i s) #
                  split_loop nm [] (drop (i + length nm) s))"
proof (induction s arbitrary: T)
  case Nil
  then show ?case by (simp add: firstOccurrence_Nil)
next
  case (Cons c cs)
  show ?case
  proof (cases "matchAt nm (c # cs)")
    case True
    with Cons.prems show ?thesis
      by (simp add: firstOccurrence_Cons)
  next
    case False
    with Cons.prems Cons.IH [of "T @ [c]"] show ?thesis
      by (simp add: firstOccurrence_Cons split: option.splits)
  qed
qed

lemma firstOccurrence_Some:
  assumes "firstOccurrence nm s = Some i"
  shows "matchAt nm (drop i s)" and "i \<le> length s"
    and "\<And>j. j < i \<Longrightarrow> \<not> matchAt nm (drop j s)"
proof -
  from assms obtain k where k: "k < length [0..<Suc (length s)]"
      "matchAt nm (drop ([0..<Suc (length s)] ! k) s)" "i = [0..<Suc (length s)] ! k"
      "\<forall>j<k. \<not> matchAt nm (drop ([0..<Suc (length s)] ! j) s)"
    unfolding firstOccurrence_def find_Some_iff by blast
  from k(1) have lt: "k < Suc (length s)" by simp
  then have ik: "i = k" using k(3) by (simp del: upt_Suc)
  show "matchAt nm (drop i s)" using k(2,3) by simp
  show "i \<le> length s" using lt ik by simp
  show "\<not> matchAt nm (drop j s)" if "j < i" for j
  proof -
    from that ik lt have "j < k" "j < Suc (length s)" by simp_all
    then show ?thesis using k(4) by (auto simp del: upt_Suc)
  qed
qed

lemma firstOccurrence_None:
  assumes "firstOccurrence nm s = None"
  shows "\<not> matchAt nm s"
proof -
  from assms have "\<forall>i<Suc (length s). \<not> matchAt nm (drop i s)"
    unfolding firstOccurrence_def find_None_iff by (simp del: upt_Suc)
  then have "\<not> matchAt nm (drop 0 s)" by blast
  then show ?thesis by simp
qed

subsection \<open>Which parts come out emphasised\<close>

lemma part_node_match:
  "matchAt nm s \<Longrightarrow> part_node nm (take (length nm) s) = Strong (take (length nm) s)"
  by (simp add: part_node_def matchAt_iff)

lemma part_node_before:
  assumes "nm \<noteq> []" and "firstOccurrence nm s = Some i"
  shows "part_node nm (take i s) = Fragment (take i s)"
proof -
  have "toLowerCase (take i s) \<noteq> toLowerCase nm"
  proof
    assume eq: "toLowerCase (take i s) = toLowerCase nm"
    then have "length (take i s) = length nm" by (rule toLowerCase_eq_length)
    moreover have "i \<le> length s" using assms(2) by (rule firstOccurrence_Some)
    ultimately have i: "i = length nm" by simp
    with eq \<open>i \<le> length s\<close> have "matchAt nm (drop 0 s)" by (simp add: matchAt_iff)
    moreover from i assms(1) have "0 < i" by simp
    ultimately show False using firstOccurrence_Some(3) [OF assms(2)] by blast
  qed
  then show ?thesis by (simp add: part_node_def)
qed

lemma part_node_rest:
  assumes "firstOccurrence nm s = None"
  shows "part_node nm s = Fragment s"
proof -
  have "toLowerCase s \<noteq> toLowerCase nm"
  proof
    assume eq: "toLowerCase s = toLowerCase nm"
    then have "length s = length nm" by (rule toLowerCase_eq_length)
    with eq have "matchAt nm s" by (simp add: matchAt_iff)
    with assms show False by (simp add: firstOccurrence_None)
  qed
  then show ?thesis by (simp add: part_node_def)
qed

lemma split_loop_greedySplit:
  "nm \<noteq> [] \<Longrightarrow> map (part_node nm) (split_loop nm [] s) = greedySplit nm s"
proof (induction nm s rule: greedySplit.induct)
  case (1 nm s)
  show ?case
  proof (cases "firstOccurrence nm s")
    case None
    with "1.prems" show ?thesis
      by (simp add: split_loop_firstOccurrence [of nm "[]" s] greedySplit.simps [of nm s]
          part_node_rest)
  next
    case (Some i)
    have m: "matchAt nm (drop i s)" using Some by (rule firstOccurrence_Some)
    from "1.IH" [OF "1.prems" Some] "1.prems"
    have "map (part_node nm) (split_loop nm [] (drop (i + length nm) s)) =
          greedySplit nm (drop (i + length nm) s)" by simp
    with "1.prems" Some m show ?thesis
      by (simp add: split_loop_firstOccurrence [of nm "[]" s] greedySplit.simps [of nm s]
          part_node_before part_node_match)
  qed
qed

lemma String_split_greedySplit:
  assumes "nm \<noteq> []"
  shows "map (part_node nm) (String_split text (CaptureLiteral nm)) = greedySplit nm text"
proof (cases "text = []")
  case True
  with assms show ?thesis
    by (simp add: String_split.simps matchAt_def greedySplit.simps [of nm "[]"]
        firstOccurrence_Nil part_node_rest)
next
  case False
  with assms show ?thesis
    by (simp add: String_split.simps split_loop_greedySplit)
qed

subsection \<open>The claims\<close>

text \<open>
  C9. When the name is empty or made of white space only, the highlighter returns the
  whole text, unchanged, as its single plain piece.
\<close>

theorem blank_name_single_plain_segment:
  "list_all isWhiteSpace nm \<Longrightarrow> highlightName text nm = Some [Fragment text]"
  by (simp add: highlightName_def String_trim_blank)

theorem blank_name_single_plain_segment_witness:
  "list_all isWhiteSpace '''' \<and> list_all isWhiteSpace ''  '' \<and>
   highlightName ''Lily met a dragon.'' '''' = Some [Fragment ''Lily met a dragon.''] \<and>
   highlightName ''Lily met a dragon.'' ''  '' = Some [Fragment ''Lily met a dragon.'']"
proof -
  have e: "list_all isWhiteSpace ''''" by simp
  have b: "list_all isWhiteSpace ''  ''" by (simp add: isWhiteSpace_def)
  from blank_name_single_plain_segment [OF e, of "''Lily met a dragon.''"]
    blank_name_single_plain_segment [OF b, of "''Lily met a dragon.''"] e b
  show ?thesis by blast
qed

text \<open>
  C10. For a name that is not blank and holds no syntax character of regular
  expressions, the highlighter returns segments whose texts, put together in order,
  are the text it was given.
\<close>

theorem highlight_preserves_text:
  assumes "String_trim nm \<noteq> []" and "\<not> list_ex isSyntaxCharacter nm"
  shows "map_option (concat \<circ> map segment_text) (highlightName text nm) = Some text"
proof -
  from assms(1) have nm: "nm \<noteq> []" by (rule String_trim_nonempty)
  have "map segment_text (map (part_node nm) ps) = ps" for ps
    by (induction ps) (simp_all add: segment_text_part_node)
  with nm show ?thesis
    by (simp add: highlightName_literal [OF assms] concat_String_split)
qed

theorem highlight_preserves_text_witness:
  "String_trim ''Lily'' \<noteq> [] \<and> \<not> list_ex isSyntaxCharacter ''Lily'' \<and>
   map_option (concat \<circ> map segment_text) (highlightName ''A lily for Lily'' ''Lily'') =
     Some ''A lily for Lily''"
proof -
  have t: "String_trim ''Lily'' \<noteq> []" by code_simp
  have m: "\<not> list_ex isSyntaxCharacter ''Lily''" by code_simp
  from highlight_preserves_text [OF t m, of "''A lily for Lily''"] t m
  show ?thesis by blast
qed

text \<open>
  C6, as the claim states it, fails on its example: the list the highlighter returns
  starts with an empty plain segment, the text before the first occurrence.
\<close>

theorem highlight_example_counterexample:
  "highlightName ''Lily met a dragon. lily smiled.'' ''Lily'' \<noteq>
     Some [Strong ''Lily'', Fragment '' met a dragon. '', Strong ''lily'',
           Fragment '' smiled.'']"
  by code_simp

text \<open>
  C6, amended. For text and name made of characters up to U+00FF, and a name that is not
  blank and holds no syntax character, the highlighter cuts the text at the leftmost
  occurrence of the name up to case, gives the part before it (empty or not) as plain
  and the occurrence as emphasised, and goes on behind the occurrence; what is left at
  the end (empty or not) is plain. An occurrence up to case is a piece of the name's
  length that equals the name once both are put in lower case. On the example this
  yields five segments, the first one plain and empty; without the empty plain segments
  they are the four of the claim.
\<close>

theorem highlight_is_greedy_split:
  "(String_trim nm \<noteq> [] \<and> \<not> list_ex isSyntaxCharacter nm \<longrightarrow>
      highlightName text nm = Some (greedySplit nm text)) \<and>
   (matchAt nm s \<longleftrightarrow>
      length nm \<le> length s \<and> toLowerCase (take (length nm) s) = toLowerCase nm) \<and>
   highlightName ''Lily met a dragon. lily smiled.'' ''Lily'' =
     Some [Fragment '''', Strong ''Lily'', Fragment '' met a dragon. '', Strong ''lily'',
           Fragment '' smiled.''] \<and>
   map_option (filter (\<lambda>seg. seg \<noteq> Fragment ''''))
       (highlightName ''Lily met a dragon. lily smiled.'' ''Lily'') =
     Some [Strong ''Lily'', Fragment '' met a dragon. '', Strong ''lily'',
           Fragment '' smiled.'']"
proof -
  have general: "highlightName text nm = Some (greedySplit nm text)"
    if "String_trim nm \<noteq> []" and "\<not> list_ex isSyntaxCharacter nm"
    using that String_trim_nonempty [OF that(1)]
    by (simp add: highlightName_literal String_split_greedySplit)
  have example: "highlightName ''Lily met a dragon. lily smiled.'' ''Lily'' =
     Some [Fragment '''', Strong ''Lily'', Fragment '' met a dragon. '', Strong ''lily'',
           Fragment '' smiled.'']"
    by code_simp
  from general example matchAt_iff [of nm s] show ?thesis
    by simp
qed

theorem highlight_is_greedy_split_witness:
  "String_trim ''lily'' \<noteq> [] \<and> \<not> list_ex isSyntaxCharacter ''lily'' \<and>
   highlightName ''xLILYlily'' ''lily'' =
     Some [Fragment ''x'', Strong ''LILY'', Fragment '''', Strong ''lily'', Fragment ''''] \<and>
   String_trim [CHR 0xE9] \<noteq> [] \<and> \<not> list_ex isSyntaxCharacter [CHR 0xE9] \<and>
   highlightName [CHR 0xC9, CHR ''t'', CHR 0xE9] [CHR 0xE9] =
     Some [Fragment '''', Strong [CHR 0xC9], Fragment ''t'', Strong [CHR 0xE9], Fragment '''']"
proof -
  have t: "String_trim ''lily'' \<noteq> []" by code_simp
  have m: "\<not> list_ex isSyntaxCharacter ''lily''" by code_simp
  have g: "greedySplit ''lily'' ''xLILYlily'' =
     [Fragment ''x'', Strong ''LILY'', Fragment '''', Strong ''lily'', Fragment '''']"
    by code_simp
  from highlight_is_greedy_split [of "''lily''" "''xLILYlily''"] t m
  have a: "highlightName ''xLILYlily'' ''lily'' = Some (greedySplit ''lily'' ''xLILYlily'')"
    by blast
  have t': "String_trim [CHR 0xE9] \<noteq> []" by code_simp
  have m': "\<not> list_ex isSyntaxCharacter [CHR 0xE9]" by code_simp
  have g': "greedySplit [CHR 0xE9] [CHR 0xC9, CHR ''t'', CHR 0xE9] =
     [Fragment '''', Strong [CHR 0xC9], Fragment ''t'', Strong [CHR 0xE9], Fragment '''']"
    by code_simp
  from highlight_is_greedy_split [of "[CHR 0xE9]" "[CHR 0xC9, CHR ''t'', CHR 0xE9]"] t' m'
  have b: "highlightName [CHR 0xC9, CHR ''t'', CHR 0xE9] [CHR 0xE9] =
      Some (greedySplit [CHR 0xE9] [CHR 0xC9, CHR ''t'', CHR 0xE9])"
    by blast
  from a b g g' t m t' m' show ?thesis by simp
qed

end
